theory Spec2Isabelle
  imports
    Complex_Main
    "HOL-Library.Sublist"
    "HOL-Library.Char_ord"
    "HOL-Library.List_Lexorder"
    "HOL-Library.Product_Lexorder"
    "HOL-Library.Multiset"
begin

section \<open>Strings: the dimension key of \<open>process_raw_data\<close>\<close>

text \<open>
  Strings are byte lists. \<open>str.strip()\<close> removes the ASCII white space of Python
  (\<open>' '\<close>, \<open>\t \n \v \f \r\<close> and the separators 0x1C..0x1F) from both ends.
\<close>

definition is_space :: "char \<Rightarrow> bool" where
  "is_space c = (c \<in> set [CHR '' '', CHR 0x09, CHR 0x0A, CHR 0x0B, CHR 0x0C, CHR 0x0D,
                           CHR 0x1C, CHR 0x1D, CHR 0x1E, CHR 0x1F])"

definition strip :: "string \<Rightarrow> string" where
  "strip s = rev (dropWhile is_space (rev (dropWhile is_space s)))"

text \<open>
  \<open>Series.str.replace(old, new)\<close> for a pattern without regex metacharacters: every
  occurrence of \<open>old\<close>, scanning from the left, without overlaps.
\<close>

function str_replace :: "string \<Rightarrow> string \<Rightarrow> string \<Rightarrow> string" where
  "str_replace old new s =
     (if old = [] \<or> s = [] then s
      else if take (length old) s = old
        then new @ str_replace old new (drop (length old) s)
        else hd s # str_replace old new (tl s))"
  by pat_completeness auto
termination
  by (relation "measure (\<lambda>(old, new, s). length s)") (auto simp: neq_Nil_conv)

declare str_replace.simps [simp del]

text \<open>The regex \<open>'^ - '\<close> replaced by the empty string: it can only match at the start.\<close>

definition sub_leading_sep :: "string \<Rightarrow> string" where
  "sub_leading_sep s = (if prefix '' - '' s then drop 3 s else s)"

text \<open>
  The regex \<open>' - $'\<close> replaced by the empty string: \<open>$\<close> matches at the end of the
  string and before a newline that ends it.
\<close>

definition sub_trailing_sep :: "string \<Rightarrow> string" where
  "sub_trailing_sep s =
     (if suffix '' - '' s then take (length s - 3) s
      else if suffix ('' - '' @ [CHR 0x0A]) s then take (length s - 4) s @ [CHR 0x0A]
      else s)"

text \<open>
  \<open>astype(str).replace('nan', '').replace('0', '')\<close>: \<open>Series.replace\<close> replaces whole
  values, not substrings.
\<close>

definition canon_level :: "string \<Rightarrow> string" where
  "canon_level s = (let s1 = (if s = ''nan'' then '''' else s) in if s1 = ''0'' then '''' else s1)"

text \<open>
  Lines 101 to 106 of \<open>process_raw_data\<close>, for one record: the two levels are
  canonicalised and joined, the result is stripped, then the three replacements run.
\<close>

definition dimension_key :: "string \<Rightarrow> string \<Rightarrow> string" where
  "dimension_key supervisor bd =
     (let d0 = canon_level supervisor @ '' - '' @ canon_level bd;
          d1 = str_replace '' -  - '' '' - '' (strip d0);
          d2 = sub_leading_sep d1
      in sub_trailing_sep d2)"

section \<open>The comparator: \<open>format_change_rate\<close> and the metric loop\<close>







text \<open>
  A row of the comparator's frame is a Series: a column that is absent maps to \<open>None\<close>,
  a present one to its cell. \<open>row[metric]\<close> raises \<open>KeyError\<close> on an absent label.
\<close>

datatype py_error = KeyError string





definition key_metrics :: "string list" where
  "key_metrics = [''Reg'', ''FTD'', ''FTT'', ''Net Deposit ($)'', ''DAU'',
     ''Total Vol ($)'', ''Total Fee ($)'', ''Profit Fee ($)'',
     ''Activate KOL'', ''EFTTC'', ''Futures PNL'']"

section \<open>Calendar dates\<close>

text \<open>
  A \<open>Timestamp\<close> at day resolution (the data is one record per statistics day): year,
  month and day as \<open>.dt.year\<close>, \<open>.dt.month\<close> and \<open>.dt.day\<close> read them.
\<close>

datatype timestamp = Timestamp (ts_year: int) (ts_month: int) (ts_day: int)

definition isleap :: "int \<Rightarrow> bool" where
  "isleap y = (y mod 4 = 0 \<and> (y mod 100 \<noteq> 0 \<or> y mod 400 = 0))"

definition mdays :: "int list" where
  "mdays = [0, 31, 28, 31, 30, 31, 30, 31, 31, 30, 31, 30, 31]"

text \<open>
  \<open>calendar.monthrange(year, month)[1]\<close>. The library raises \<open>IllegalMonthError\<close> for a
  month outside 1..12; the builders read \<open>Year\<close> and \<open>Month\<close> off a \<open>Timestamp\<close>, which
  \<open>to_datetime\<close> below yields for calendar dates only, so that branch is not reached
  there (lemma \<open>to_datetime_valid\<close>); the model gives it the value 0.
\<close>

definition days_in_month :: "int \<Rightarrow> int \<Rightarrow> int" where
  "days_in_month y m =
     (if 1 \<le> m \<and> m \<le> 12 then mdays ! nat m + (if m = 2 \<and> isleap y then 1 else 0) else 0)"

definition valid_date :: "timestamp \<Rightarrow> bool" where
  "valid_date d =
     (1 \<le> ts_month d \<and> ts_month d \<le> 12 \<and> 1 \<le> ts_day d
      \<and> ts_day d \<le> days_in_month (ts_year d) (ts_month d))"

text \<open>
  \<open>pd.to_datetime(s, errors='coerce')\<close>: the text recogniser \<open>p\<close> of pandas is a
  parameter of the model; what is not a calendar date becomes \<open>NaT\<close> (\<open>None\<close>).
\<close>

definition to_datetime :: "(string \<Rightarrow> timestamp option) \<Rightarrow> string \<Rightarrow> timestamp option" where
  "to_datetime p s =
     (case p s of None \<Rightarrow> None | Some d \<Rightarrow> if valid_date d then Some d else None)"

text \<open>A recogniser for the format \<open>YYYY-MM-DD\<close>, used to run the model on examples.\<close>

definition digit_val :: "char \<Rightarrow> int option" where
  "digit_val c = map_of (zip ''0123456789'' [0, 1, 2, 3, 4, 5, 6, 7, 8, 9]) c"

fun parse_digits :: "int \<Rightarrow> string \<Rightarrow> int option" where
  "parse_digits acc [] = Some acc"
| "parse_digits acc (c # cs) =
     (case digit_val c of None \<Rightarrow> None | Some v \<Rightarrow> parse_digits (10 * acc + v) cs)"

definition parse_iso :: "string \<Rightarrow> timestamp option" where
  "parse_iso s =
     (case s of
        [y1, y2, y3, y4, a, m1, m2, b, d1, d2] \<Rightarrow>
          (if a = CHR ''-'' \<and> b = CHR ''-'' then
             (case (parse_digits 0 [y1, y2, y3, y4], parse_digits 0 [m1, m2], parse_digits 0 [d1, d2]) of
                (Some y, Some m, Some d) \<Rightarrow> Some (Timestamp y m d)
              | _ \<Rightarrow> None)
           else None)
      | _ \<Rightarrow> None)"

text \<open>The order of \<open>Timestamp\<close>s, as a sort key, and the \<open>to_period('M')\<close> of a date.\<close>

definition date_key :: "timestamp \<Rightarrow> int \<times> int \<times> int" where
  "date_key d = (ts_year d, ts_month d, ts_day d)"

definition year_month :: "timestamp \<Rightarrow> int \<times> int" where
  "year_month d = (ts_year d, ts_month d)"

text \<open>
  \<open>.dt.isocalendar()\<close>, by the algorithm of Python's \<open>datetime\<close>: the proleptic
  ordinal of a date, the Monday of ISO week 1 of a year, and the ISO year and week.
\<close>

definition days_before_year :: "int \<Rightarrow> int" where
  "days_before_year y = (let y1 = y - 1 in y1 * 365 + y1 div 4 - y1 div 100 + y1 div 400)"

definition days_before_month :: "int \<Rightarrow> int \<Rightarrow> int" where
  "days_before_month y m =
     sum_list (take (nat m) mdays) + (if 2 < m \<and> isleap y then 1 else 0)"

definition ymd2ord :: "int \<Rightarrow> int \<Rightarrow> int \<Rightarrow> int" where
  "ymd2ord y m d = days_before_year y + days_before_month y m + d"

definition isoweek1monday :: "int \<Rightarrow> int" where
  "isoweek1monday y =
     (let firstday = ymd2ord y 1 1;
          firstweekday = (firstday + 6) mod 7;
          week1monday = firstday - firstweekday
      in if 3 < firstweekday then week1monday + 7 else week1monday)"

definition isocalendar :: "timestamp \<Rightarrow> int \<times> int" where
  "isocalendar d =
     (let y = ts_year d;
          today = ymd2ord y (ts_month d) (ts_day d);
          week = (today - isoweek1monday y) div 7
      in if week < 0 then (y - 1, (today - isoweek1monday (y - 1)) div 7 + 1)
         else if 52 \<le> week \<and> isoweek1monday (y + 1) \<le> today then (y + 1, 1)
         else (y, week + 1))"

section \<open>Frames, sorting and grouping\<close>

text \<open>
  A row of an aggregated frame: the columns \<open>Dimension\<close> and \<open>Date\<close> (text) and the
  metric cells by column name. A frame also says which metric columns it has, and holds
  the column \<open>Date_dt\<close> once a builder has assigned it (\<open>None\<close>: no such column).
  Metric values are exact rationals.
\<close>

record row =
  Dimension :: string
  Date :: string
  cells :: "string \<Rightarrow> rat"

record frame =
  columns :: "string list"
  rows :: "row list"
  Date_dt :: "timestamp option list option"

text \<open>
  \<open>sort_values(key, ascending=False)\<close>. pandas does not fix the order of rows with
  equal keys (its default sort is not stable); the model is an insertion sort that keeps
  their order.
\<close>

fun insort_desc :: "('a \<Rightarrow> 'k::linorder) \<Rightarrow> 'a \<Rightarrow> 'a list \<Rightarrow> 'a list" where
  "insort_desc f x [] = [x]"
| "insort_desc f x (y # ys) = (if f y \<le> f x then x # y # ys else y # insort_desc f x ys)"

definition sort_desc :: "('a \<Rightarrow> 'k::linorder) \<Rightarrow> 'a list \<Rightarrow> 'a list" where
  "sort_desc f xs = foldr (insort_desc f) xs []"

text \<open>
  The distinct values of a list in the order of their first occurrence (\<open>.unique()\<close>,
  the keys of an insertion-ordered dict, the groups of \<open>groupby(sort=False)\<close>).
\<close>

definition uniq :: "'a list \<Rightarrow> 'a list" where
  "uniq xs = rev (remdups (rev xs))"

definition groupby_unsorted :: "('a \<Rightarrow> 'k) \<Rightarrow> 'a list \<Rightarrow> ('k \<times> 'a list) list" where
  "groupby_unsorted key xs = map (\<lambda>k. (k, filter (\<lambda>x. key x = k) xs)) (uniq (map key xs))"

text \<open>\<open>groupby(keys)\<close> with the default \<open>sort=True\<close>: the groups in ascending key order.\<close>

definition groupby_sorted :: "('a \<Rightarrow> 'k::linorder) \<Rightarrow> 'a list \<Rightarrow> ('k \<times> 'a list) list" where
  "groupby_sorted key xs =
     map (\<lambda>k. (k, filter (\<lambda>x. key x = k) xs)) (sort (remdups (map key xs)))"

section \<open>The rollup builder \<open>create_table_data\<close>\<close>

definition display_columns :: "string list" where
  "display_columns = [''Date'', ''Reg'', ''FTD'', ''FTT'', ''Deposit ($)'', ''Withdraw ($)'',
     ''Net Deposit ($)'', ''DAU'', ''Spot Vol ($)'', ''Spot Fee ($)'',
     ''Futures Vol ($)'', ''Futures Fee ($)'', ''Total Vol ($)'', ''Total Fee ($)'',
     ''Profit Fee ($)'', ''Activate KOL'', ''EFTTC'', ''Bonus Consumption'',
     ''Bonus Transfer Into'', ''Futures PNL'']"

text \<open>
  \<open>available_columns\<close> (line 235). \<open>Date\<close> is a column of every frame (a field of
  \<open>row\<close>); the other names are looked up among the frame's metric columns.
\<close>

definition available_columns :: "frame \<Rightarrow> string list" where
  "available_columns fr =
     filter (\<lambda>col. col = ''Date'' \<or> col \<in> set (columns fr)) display_columns"

text \<open>
  The label of an output row, in place of its text: \<open>%Y-%m-%d\<close> of a day, the week's
  \<open>%m/%d~%m/%d\<close>, the month's \<open>{year}/{month:02d}\<close>, and \<open>TOTAL\<close>. The cells after the
  label are the numbers that \<open>format_number\<close> is applied to.
\<close>

datatype label =
  Daily timestamp
| WeekSummary timestamp timestamp
| MonthSummary int int
| Total

type_synonym rollup_row = "label \<times> rat list"

type_synonym dated_row = "timestamp \<times> row"

text \<open>The column \<open>Date_dt\<close> of line 195, and the rows that line 196 keeps, with their dates.\<close>

definition Date_dt_column :: "(string \<Rightarrow> timestamp option) \<Rightarrow> frame \<Rightarrow> timestamp option list" where
  "Date_dt_column p fr = map (\<lambda>r. to_datetime p (Date r)) (rows fr)"

definition dated_rows :: "(string \<Rightarrow> timestamp option) \<Rightarrow> frame \<Rightarrow> dated_row list" where
  "dated_rows p fr =
     concat (map (\<lambda>(dt, r). case dt of None \<Rightarrow> [] | Some d \<Rightarrow> [(d, r)])
                 (zip (Date_dt_column p fr) (rows fr)))"

definition is_month_complete :: "dated_row list \<Rightarrow> int \<Rightarrow> int \<Rightarrow> bool" where
  "is_month_complete month_data year month =
     (let days_in_month = days_in_month year month;
          unique_days = int (card (set (map (\<lambda>(d, r). ts_day d) month_data)))
      in days_in_month \<le> unique_days)"

text \<open>
  The reduction of one column over a set of rows, as the month, week and total rows all
  do it: \<open>max\<close> for \<open>DAU\<close> and \<open>Activate KOL\<close>, \<open>sum\<close> for every other column. The
  builders reduce non-empty sets only; \<open>max\<close> of no rows is NaN, shown as 0.
\<close>

definition column_max :: "rat list \<Rightarrow> rat" where
  "column_max vs = (if vs = [] then 0 else Max (set vs))"

definition reduce_column :: "string \<Rightarrow> dated_row list \<Rightarrow> rat" where
  "reduce_column col data =
     (if col \<in> set [''DAU'', ''Activate KOL'']
      then column_max (map (\<lambda>(d, r). cells r col) data)
      else sum_list (map (\<lambda>(d, r). cells r col) data))"

definition daily_row :: "string list \<Rightarrow> dated_row \<Rightarrow> rollup_row" where
  "daily_row cols dr = (Daily (fst dr), map (\<lambda>col. cells (snd dr) col) (tl cols))"

definition month_total_row :: "dated_row list \<Rightarrow> string list \<Rightarrow> int \<Rightarrow> int \<Rightarrow> rollup_row" where
  "month_total_row month_data cols year month =
     (MonthSummary year month, map (\<lambda>col. reduce_column col month_data) (tl cols))"

definition total_row :: "dated_row list \<Rightarrow> string list \<Rightarrow> rollup_row" where
  "total_row data cols = (Total, map (\<lambda>col. reduce_column col data) (tl cols))"

text \<open>The body of the loop over the month groups (lines 241 to 265), for one group.\<close>

definition month_block :: "int \<times> int \<Rightarrow> string list \<Rightarrow> (int \<times> int) \<times> dated_row list \<Rightarrow> rollup_row list" where
  "month_block latest_year_month cols g =
     (let year_month = fst g; month_data = snd g;
          year = ts_year (fst (hd month_data));
          month = ts_month (fst (hd month_data));
          is_latest_month = (year_month = latest_year_month);
          is_complete = is_month_complete month_data year month
      in if is_latest_month
         then map (daily_row cols) month_data @ [month_total_row month_data cols year month]
         else if is_complete then [month_total_row month_data cols year month]
         else [])"

text \<open>
  \<open>create_table_data\<close>: \<open>None\<close> when no row has a valid date, else the table. The names
  \<open>business_name\<close> and \<open>supervisor\<close> that the function also returns are not modelled.
\<close>

definition create_table_data :: "(string \<Rightarrow> timestamp option) \<Rightarrow> frame \<Rightarrow> rollup_row list option" where
  "create_table_data p agent_data =
     (let data0 = dated_rows p agent_data
      in if data0 = [] then None
         else
           (let data = sort_desc (\<lambda>dr. date_key (fst dr)) data0;
                latest_year_month = year_month (fst (hd data));
                cols = available_columns agent_data;
                month_groups = groupby_unsorted (\<lambda>dr. year_month (fst dr)) data;
                table_data = concat (map (month_block latest_year_month cols) month_groups)
            in Some (if data \<noteq> [] then table_data @ [total_row data cols] else table_data)))"


section \<open>The team builder \<open>create_supervisor_report\<close>\<close>

text \<open>
  The metrics of the \<open>agg\<close> dictionary of lines 447 to 467 are the display columns
  after \<open>Date\<close>; \<open>groupby(...).agg\<close> raises \<open>KeyError\<close> when the frame lacks one.
\<close>

definition team_metrics :: "string list" where
  "team_metrics = tl display_columns"

text \<open>
  \<open>daily_totals\<close> (lines 447 to 470): one row per \<open>Date\<close> text, the groups in ascending
  key order, every metric summed over the team's rows of that day; then sorted by date,
  newest first. The frame has no \<open>Dimension\<close> column: the field is left empty.
\<close>

definition daily_total :: "string \<times> dated_row list \<Rightarrow> dated_row" where
  "daily_total g =
     (fst (hd (snd g)),
      \<lparr>Dimension = [], Date = fst g,
       cells = (\<lambda>col. if col \<in> set team_metrics
                       then sum_list (map (\<lambda>(d, r). cells r col) (snd g)) else 0)\<rparr>)"

definition daily_totals :: "dated_row list \<Rightarrow> dated_row list" where
  "daily_totals data =
     sort_desc (\<lambda>dr. date_key (fst dr))
       (map daily_total (groupby_sorted (\<lambda>(d, r). Date r) data))"

text \<open>The key \<open>YearWeek\<close>: the text \<open>{ISO_Year}-W{ISO_Week:02}\<close>, kept as the pair it prints.\<close>

definition year_week :: "timestamp \<Rightarrow> int \<times> int" where
  "year_week d = isocalendar d"

definition min_date :: "timestamp list \<Rightarrow> timestamp" where
  "min_date ds = fold (\<lambda>d m. if date_key d < date_key m then d else m) (tl ds) (hd ds)"

definition max_date :: "timestamp list \<Rightarrow> timestamp" where
  "max_date ds = fold (\<lambda>d m. if date_key m < date_key d then d else m) (tl ds) (hd ds)"

definition week_total_row :: "dated_row list \<Rightarrow> string list \<Rightarrow> rollup_row" where
  "week_total_row week_data cols =
     (WeekSummary (min_date (map fst week_data)) (max_date (map fst week_data)),
      map (\<lambda>col. reduce_column col week_data) (tl cols))"

text \<open>
  The body of the loop over the month groups (lines 505 to 585), for one group. For the
  latest month the daily rows are appended first; \<open>week_groups\<close> collects the week keys in
  the order in which the daily rows meet them, and the loop of lines 538 to 558 then
  appends one row per key, reduced over the rows of that week in \<open>full_team_data\<close>.
\<close>

definition team_month_block ::
  "int \<times> int \<Rightarrow> string list \<Rightarrow> dated_row list \<Rightarrow> (int \<times> int) \<times> dated_row list \<Rightarrow> rollup_row list" where
  "team_month_block latest_year_month cols full_team_data g =
     (let year_month = fst g; month_data = snd g;
          year = ts_year (fst (hd month_data));
          month = ts_month (fst (hd month_data));
          is_latest_month = (year_month = latest_year_month);
          is_complete = is_month_complete month_data year month
      in if is_latest_month
         then (let week_groups = uniq (map (\<lambda>dr. year_week (fst dr)) month_data)
               in map (daily_row cols) month_data
                  @ map (\<lambda>week_key.
                           week_total_row
                             (filter (\<lambda>dr. year_week (fst dr) = week_key) full_team_data) cols)
                        week_groups
                  @ [month_total_row month_data cols year month])
         else if is_complete then [month_total_row month_data cols year month]
         else [])"

text \<open>
  \<open>create_supervisor_report\<close> up to the table it draws: \<open>Inr None\<close> when no row has a
  valid date, \<open>Inl\<close> the \<open>KeyError\<close> of the aggregation, else the table.
\<close>

definition create_supervisor_report ::
  "(string \<Rightarrow> timestamp option) \<Rightarrow> frame \<Rightarrow> py_error + rollup_row list option" where
  "create_supervisor_report p supervisor_data =
     (let data0 = dated_rows p supervisor_data
      in if data0 = [] then Inr None
         else
           (let data = sort_desc (\<lambda>dr. date_key (fst dr)) data0
            in case filter (\<lambda>col. col \<notin> set (columns supervisor_data)) team_metrics of
                 col # _ \<Rightarrow> Inl (KeyError col)
               | [] \<Rightarrow>
                   (let totals = daily_totals data;
                        latest_year_month = year_month (fst (hd totals));
                        cols = display_columns;
                        month_groups = groupby_unsorted (\<lambda>dr. year_month (fst dr)) totals;
                        table_data =
                          concat (map (team_month_block latest_year_month cols totals) month_groups)
                    in Inr (Some (if totals \<noteq> [] then table_data @ [total_row totals cols]
                                  else table_data)))))"

section \<open>The aggregator \<open>_aggregate_data_impl\<close>\<close>








section \<open>What the calls leave in their argument\<close>













section \<open>Vocabulary of the statements\<close>

text \<open>
  The aggregator that the metric registry gives a column, over a set of rows: the
  maximum for the gauge metrics \<open>DAU\<close> and \<open>Activate KOL\<close>, the sum for every other.
\<close>

definition registry_aggregate :: "string \<Rightarrow> row list \<Rightarrow> rat" where
  "registry_aggregate col rs =
     (if col = ''DAU'' \<or> col = ''Activate KOL''
      then Max (set (map (\<lambda>r. cells r col) rs))
      else sum_list (map (\<lambda>r. cells r col) rs))"

text \<open>The rows of a frame whose date is valid and satisfies \<open>Q\<close>, in the frame's order.\<close>

definition rows_where :: "(string \<Rightarrow> timestamp option) \<Rightarrow> (timestamp \<Rightarrow> bool) \<Rightarrow> frame \<Rightarrow> row list" where
  "rows_where p Q fr =
     filter (\<lambda>r. case to_datetime p (Date r) of None \<Rightarrow> False | Some d \<Rightarrow> Q d) (rows fr)"

text \<open>An output row belongs to a month by its label: a day of it, a week that touches it, its summary.\<close>

fun label_in_month :: "int \<times> int \<Rightarrow> label \<Rightarrow> bool" where
  "label_in_month ym (Daily d) = (year_month d = ym)"
| "label_in_month ym (WeekSummary s e) = (year_month s = ym \<or> year_month e = ym)"
| "label_in_month ym (MonthSummary y m) = ((y, m) = ym)"
| "label_in_month ym Total = False"


text \<open>
  The table of daily totals of a team frame, over all its dates: the rows that
  \<open>create_supervisor_report\<close> lists and reduces.
\<close>

definition team_rows :: "(string \<Rightarrow> timestamp option) \<Rightarrow> frame \<Rightarrow> dated_row list" where
  "team_rows p fr = daily_totals (sort_desc (\<lambda>dr. date_key (fst dr)) (dated_rows p fr))"

text \<open>A week row belongs to the ISO week of the date its label starts with.\<close>

fun is_week_of :: "int \<times> int \<Rightarrow> label \<Rightarrow> bool" where
  "is_week_of wk (WeekSummary s e) = (year_week s = wk)"
| "is_week_of wk _ = False"

fun is_week :: "label \<Rightarrow> bool" where
  "is_week (WeekSummary s e) = True"
| "is_week _ = False"

fun is_daily :: "label \<Rightarrow> bool" where
  "is_daily (Daily d) = True"
| "is_daily _ = False"



section \<open>Example inputs\<close>

text \<open>
  A frame with one dated row and one row whose date text is empty (the aggregator
  produces such a row for records without a statistics date).
\<close>

definition example_gap :: frame where
  "example_gap =
     \<lparr>columns = [''Reg'', ''DAU''],
      rows = [\<lparr>Dimension = ''A - B'', Date = ''2024-08-01'',
               cells = (\<lambda>c. 0)(''Reg'' := 1, ''DAU'' := 3)\<rparr>,
              \<lparr>Dimension = ''A - B'', Date = [],
               cells = (\<lambda>c. 0)(''Reg'' := 5, ''DAU'' := 9)\<rparr>],
      Date_dt = None\<rparr>"

text \<open>
  One dimension over three months: a single day of January 2023, every day of February
  2023, and the first of March 2023, which is the current month.
\<close>

definition example_months :: frame where
  "example_months =
     \<lparr>columns = [''Reg'', ''DAU''],
      rows =
        \<lparr>Dimension = ''A - B'', Date = ''2023-01-31'',
         cells = (\<lambda>c. 0)(''Reg'' := 7, ''DAU'' := 40)\<rparr>
        # map (\<lambda>(dd, k). \<lparr>Dimension = ''A - B'', Date = ''2023-02-'' @ dd,
                             cells = (\<lambda>c. 0)(''Reg'' := 1, ''DAU'' := k)\<rparr>)
            [(''01'', 1), (''02'', 2), (''03'', 3), (''04'', 4), (''05'', 5), (''06'', 6),
             (''07'', 7), (''08'', 8), (''09'', 9), (''10'', 10), (''11'', 11), (''12'', 12),
             (''13'', 13), (''14'', 14), (''15'', 15), (''16'', 16), (''17'', 17), (''18'', 18),
             (''19'', 19), (''20'', 20), (''21'', 21), (''22'', 22), (''23'', 23), (''24'', 24),
             (''25'', 25), (''26'', 26), (''27'', 27), (''28'', 28)]
        @ [\<lparr>Dimension = ''A - B'', Date = ''2023-03-01'',
            cells = (\<lambda>c. 0)(''Reg'' := 2, ''DAU'' := 3)\<rparr>],
      Date_dt = None\<rparr>"

text \<open>
  A team of two representatives: both report on 2024-08-01 (a Thursday), one also on
  2024-07-31 (the Wednesday of the same ISO week 31, in the month before).
\<close>

definition team_frame :: "(string \<times> string \<times> rat \<times> rat) list \<Rightarrow> frame" where
  "team_frame recs =
     \<lparr>columns = tl display_columns,
      rows = map (\<lambda>(dim, date, reg, dau).
                    \<lparr>Dimension = dim, Date = date,
                     cells = (\<lambda>c. 0)(''Reg'' := reg, ''DAU'' := dau)\<rparr>) recs,
      Date_dt = None\<rparr>"

definition example_straddle :: frame where
  "example_straddle =
     team_frame [(''A - B'', ''2024-07-31'', 2, 20), (''A - C'', ''2024-08-01'', 4, 9),
                 (''A - B'', ''2024-08-01'', 1, 5)]"






section \<open>Theorems\<close>

subsection \<open>Sorting and grouping\<close>

lemma mset_insort_desc: "mset (insort_desc f x xs) = add_mset x (mset xs)"
  by (induction xs) auto

lemma mset_sort_desc: "mset (sort_desc f xs) = mset xs"
  by (induction xs) (auto simp: sort_desc_def mset_insort_desc)

lemma set_sort_desc: "set (sort_desc f xs) = set xs"
  using mset_sort_desc[of f xs] by (metis set_mset_mset)

lemma sort_desc_Nil_iff: "sort_desc f xs = [] \<longleftrightarrow> xs = []"
  using mset_sort_desc[of f xs] by (metis mset_zero_iff)

lemma set_insort_desc: "set (insort_desc f x xs) = insert x (set xs)"
  using mset_insort_desc[of f x xs] by (metis set_mset_add_mset_insert set_mset_mset)

lemma hd_insort_desc_ge:
  assumes "\<forall>y\<in>set ys. f y \<le> f (hd ys)"
  shows "\<forall>y\<in>set (insort_desc f x ys). f y \<le> f (hd (insort_desc f x ys))"
proof (cases ys)
  case Nil
  then show ?thesis by simp
next
  case (Cons a as)
  show ?thesis
  proof (cases "f a \<le> f x")
    case True
    then show ?thesis using assms Cons by (auto intro: order_trans)
  next
    case False
    then have "hd (insort_desc f x ys) = a" using Cons by simp
    then show ?thesis using assms Cons False by (auto simp: set_insort_desc)
  qed
qed

lemma hd_sort_desc_ge: "\<forall>y\<in>set (sort_desc f xs). f y \<le> f (hd (sort_desc f xs))"
proof (induction xs)
  case Nil
  then show ?case by (simp add: sort_desc_def)
next
  case (Cons x xs)
  have "sort_desc f (x # xs) = insort_desc f x (sort_desc f xs)"
    by (simp add: sort_desc_def)
  then show ?case using hd_insort_desc_ge[OF Cons.IH] by simp
qed

lemma set_uniq [simp]: "set (uniq xs) = set xs"
  by (simp add: uniq_def)

lemma distinct_uniq [simp]: "distinct (uniq xs)"
  by (simp add: uniq_def)


lemma concat_map_single:
  "distinct ks \<Longrightarrow> a \<in> set ks \<Longrightarrow> (\<And>k. k \<in> set ks \<Longrightarrow> k \<noteq> a \<Longrightarrow> f k = []) \<Longrightarrow>
   concat (map f ks) = f a"
proof (induction ks)
  case Nil
  then show ?case by simp
next
  case (Cons k ks)
  show ?case
  proof (cases "k = a")
    case True
    then have "a \<notin> set ks" using Cons.prems(1) by simp
    then have "\<And>k'. k' \<in> set ks \<Longrightarrow> f k' = []" using Cons.prems(3) by auto
    then have "concat (map f ks) = []" by simp
    then show ?thesis using True by simp
  next
    case False
    then have "f k = []" using Cons.prems(3) by simp
    moreover have "concat (map f ks) = f a"
      using Cons.IH Cons.prems False by auto
    ultimately show ?thesis by simp
  qed
qed

lemma map_snd_dated_rows:
  "map snd (dated_rows p fr) = filter (\<lambda>r. to_datetime p (Date r) \<noteq> None) (rows fr)"
proof -
  have "map snd (concat (map (\<lambda>(dt, r). case dt of None \<Rightarrow> [] | Some d \<Rightarrow> [(d, r)])
                 (zip (map (\<lambda>r. to_datetime p (Date r)) rs) rs)))
        = filter (\<lambda>r. to_datetime p (Date r) \<noteq> None) rs" for rs
    by (induction rs) (auto split: option.splits)
  then show ?thesis by (simp add: dated_rows_def Date_dt_column_def)
qed

lemma dated_rows_date:
  "(d, r) \<in> set (dated_rows p fr) \<Longrightarrow> to_datetime p (Date r) = Some d \<and> r \<in> set (rows fr)"
proof -
  have "(d, r) \<in> set (concat (map (\<lambda>(dt, r). case dt of None \<Rightarrow> [] | Some d \<Rightarrow> [(d, r)])
                 (zip (map (\<lambda>r. to_datetime p (Date r)) rs) rs)))
        \<Longrightarrow> to_datetime p (Date r) = Some d \<and> r \<in> set rs" for rs
    by (induction rs) (auto split: option.splits)
  then show "(d, r) \<in> set (dated_rows p fr) \<Longrightarrow> ?thesis"
    by (simp add: dated_rows_def Date_dt_column_def)
qed

lemma to_datetime_valid: "to_datetime p s = Some d \<Longrightarrow> valid_date d"
  by (auto simp: to_datetime_def split: option.splits if_splits)

lemma dated_rows_valid: "(d, r) \<in> set (dated_rows p fr) \<Longrightarrow> valid_date d"
  using dated_rows_date to_datetime_valid by blast

subsection \<open>Reductions over the dated rows of a frame\<close>

lemma map_snd_filter_dated_rows:
  "map snd (filter (\<lambda>dr. Q (fst dr)) (dated_rows p fr)) = rows_where p Q fr"
proof -
  have "map snd (filter (\<lambda>dr. Q (fst dr))
          (concat (map (\<lambda>(dt, r). case dt of None \<Rightarrow> [] | Some d \<Rightarrow> [(d, r)])
                 (zip (map (\<lambda>r. to_datetime p (Date r)) rs) rs))))
        = filter (\<lambda>r. case to_datetime p (Date r) of None \<Rightarrow> False | Some d \<Rightarrow> Q d) rs" for rs
    by (induction rs) (auto split: option.splits)
  then show ?thesis by (simp add: dated_rows_def Date_dt_column_def rows_where_def)
qed

lemma map_fst_filter_dated_rows:
  "map fst (filter (\<lambda>dr. Q (fst dr)) (dated_rows p fr))
   = map (\<lambda>r. the (to_datetime p (Date r))) (rows_where p Q fr)"
proof -
  have "map fst (filter (\<lambda>dr. Q (fst dr))
          (concat (map (\<lambda>(dt, r). case dt of None \<Rightarrow> [] | Some d \<Rightarrow> [(d, r)])
                 (zip (map (\<lambda>r. to_datetime p (Date r)) rs) rs))))
        = map (\<lambda>r. the (to_datetime p (Date r)))
            (filter (\<lambda>r. case to_datetime p (Date r) of None \<Rightarrow> False | Some d \<Rightarrow> Q d) rs)" for rs
    by (induction rs) (auto split: option.splits)
  then show ?thesis by (simp add: dated_rows_def Date_dt_column_def rows_where_def)
qed

lemma reduce_column_registry:
  assumes "data \<noteq> []"
  shows "reduce_column col data = registry_aggregate col (map snd data)"
proof -
  have eq: "(\<lambda>(d, r). cells r col) = (\<lambda>r. cells r col) \<circ> snd"
    by auto
  show ?thesis
    using assms by (simp add: reduce_column_def registry_aggregate_def column_max_def eq)
qed

lemma registry_aggregate_mset:
  assumes "mset rs = mset rs'"
  shows "registry_aggregate col rs = registry_aggregate col rs'"
proof -
  have "mset (map (\<lambda>r. cells r col) rs) = mset (map (\<lambda>r. cells r col) rs')"
    using assms by (metis mset_map)
  then have "sum_list (map (\<lambda>r. cells r col) rs) = sum_list (map (\<lambda>r. cells r col) rs')"
    and "set (map (\<lambda>r. cells r col) rs) = set (map (\<lambda>r. cells r col) rs')"
    by (metis sum_mset_sum_list, metis set_mset_mset)
  then show ?thesis by (simp add: registry_aggregate_def)
qed

lemma reduce_column_sorted_filter:
  assumes "filter (\<lambda>dr. Q (fst dr)) (dated_rows p fr) \<noteq> []"
  shows "reduce_column col (filter (\<lambda>dr. Q (fst dr)) (sort_desc f (dated_rows p fr)))
         = registry_aggregate col (rows_where p Q fr)"
proof -
  let ?D = "dated_rows p fr" and ?P = "\<lambda>dr. Q (fst dr)"
  have m: "mset (filter ?P (sort_desc f ?D)) = mset (filter ?P ?D)"
    by (simp add: mset_sort_desc)
  then have ne: "filter ?P (sort_desc f ?D) \<noteq> []"
    using assms by (metis mset_zero_iff)
  have "mset (map snd (filter ?P (sort_desc f ?D))) = mset (map snd (filter ?P ?D))"
    using m by (metis mset_map)
  then have "registry_aggregate col (map snd (filter ?P (sort_desc f ?D)))
             = registry_aggregate col (rows_where p Q fr)"
    using registry_aggregate_mset map_snd_filter_dated_rows by metis
  then show ?thesis using reduce_column_registry[OF ne] by simp
qed

lemma days_sorted_filter:
  "set (map (\<lambda>(d, r). ts_day d) (filter (\<lambda>dr. Q (fst dr)) (sort_desc f (dated_rows p fr))))
   = set (map (\<lambda>r. ts_day (the (to_datetime p (Date r)))) (rows_where p Q fr))"
proof -
  let ?D = "dated_rows p fr" and ?P = "\<lambda>dr. Q (fst dr)"
  have "set (filter ?P (sort_desc f ?D)) = set (filter ?P ?D)"
    by (simp add: set_sort_desc)
  then have "set (map (\<lambda>(d, r). ts_day d) (filter ?P (sort_desc f ?D)))
      = set (map ts_day (map fst (filter ?P ?D)))"
    by (simp add: case_prod_beta image_image)
  then show ?thesis by (simp add: map_fst_filter_dated_rows comp_def)
qed

lemma year_month_of_key: "date_key a = date_key b \<Longrightarrow> year_month a = year_month b"
  by (simp add: date_key_def year_month_def)

lemma latest_is_max:
  assumes "(dmax, r1) \<in> set D" and "\<forall>(d, r)\<in>set D. date_key d \<le> date_key dmax"
  shows "year_month (fst (hd (sort_desc (\<lambda>dr. date_key (fst dr)) D))) = year_month dmax"
proof -
  let ?S = "sort_desc (\<lambda>dr. date_key (fst dr)) D"
  have ne: "?S \<noteq> []" using assms(1) by (auto simp: sort_desc_Nil_iff)
  then have "hd ?S \<in> set D" using set_sort_desc[of _ D] by (metis hd_in_set)
  then have le: "date_key (fst (hd ?S)) \<le> date_key dmax" using assms(2) by (auto simp: case_prod_beta)
  have "(dmax, r1) \<in> set ?S" using assms(1) by (simp add: set_sort_desc)
  then have "date_key dmax \<le> date_key (fst (hd ?S))"
    using hd_sort_desc_ge[of "\<lambda>dr. date_key (fst dr)" D] by fastforce
  then show ?thesis using le year_month_of_key by (metis order_antisym)
qed

lemma month_block_labels:
  assumes "G \<noteq> []" and "\<forall>x\<in>set G. year_month (fst x) = k"
  shows "\<forall>rr\<in>set (month_block latest cols (k, G)). label_in_month ym (fst rr) \<longleftrightarrow> k = ym"
proof -
  have "year_month (fst (hd G)) = k" using assms by simp
  then have "(ts_year (fst (hd G)), ts_month (fst (hd G))) = k" by (simp add: year_month_def)
  then show ?thesis using assms(2)
    by (auto simp: month_block_def Let_def daily_row_def month_total_row_def)
qed

lemma month_block_other:
  assumes "G \<noteq> []" and "\<forall>x\<in>set G. year_month (fst x) = k" and "k \<noteq> latest"
  shows "month_block latest cols (k, G) =
    (if is_month_complete G (fst k) (snd k) then [month_total_row G cols (fst k) (snd k)] else [])"
proof -
  have "year_month (fst (hd G)) = k" using assms by simp
  then have "ts_year (fst (hd G)) = fst k" "ts_month (fst (hd G)) = snd k"
    by (auto simp: year_month_def)
  then show ?thesis using assms(3) by (simp add: month_block_def Let_def)
qed

lemma create_table_data_Some:
  assumes "create_table_data p fr = Some out"
  shows "dated_rows p fr \<noteq> []"
    and "out = concat (map (month_block (year_month (fst (hd (sort_desc (\<lambda>dr. date_key (fst dr)) (dated_rows p fr)))))
                 (available_columns fr))
              (groupby_unsorted (\<lambda>dr. year_month (fst dr)) (sort_desc (\<lambda>dr. date_key (fst dr)) (dated_rows p fr))))
           @ [total_row (sort_desc (\<lambda>dr. date_key (fst dr)) (dated_rows p fr)) (available_columns fr)]"
  using assms by (auto simp: create_table_data_def Let_def sort_desc_Nil_iff split: if_splits)

lemma groupby_unsorted_concat:
  "concat (map f (groupby_unsorted key xs))
   = concat (map (\<lambda>k. f (k, filter (\<lambda>x. key x = k) xs)) (uniq (map key xs)))"
  by (simp add: groupby_unsorted_def comp_def)

lemma filter_concat_map: "filter P (concat (map f xs)) = concat (map (\<lambda>x. filter P (f x)) xs)"
  by (induction xs) auto


lemma days_in_month_nonneg: "0 \<le> days_in_month y m"
proof (cases "1 \<le> m \<and> m \<le> 12")
  case True
  have "length mdays = 13" by (simp add: mdays_def)
  then have "nat m < length mdays" using True by linarith
  then have "mdays ! nat m \<in> set mdays" by (rule nth_mem)
  then have "0 \<le> mdays ! nat m" by (auto simp: mdays_def)
  then show ?thesis using True by (simp add: days_in_month_def)
next
  case False
  then have "days_in_month y m = 0" unfolding days_in_month_def by meson
  then show ?thesis by simp
qed

lemma groupby_unsorted_member:
  assumes "(k, G) \<in> set (groupby_unsorted key xs)"
  shows "G = filter (\<lambda>x. key x = k) xs" and "G \<noteq> []"
  using assms by (auto simp: groupby_unsorted_def filter_empty_conv)


lemma create_table_data_not_None:
  "dated_rows p fr \<noteq> [] \<Longrightarrow> create_table_data p fr \<noteq> None"
  by (simp add: create_table_data_def Let_def)

subsection \<open>The dimension key\<close>

text \<open>
  C5 (evaluation at the failing input): for the levels \<open>("Alice", "")\<close> the code's key is
  \<open>"Alice -"\<close>, for \<open>("", "Bob")\<close> it is \<open>"- Bob"\<close>: the strip of line 104 removes the
  blank that the patterns of lines 105 and 106 need, so a separator is left dangling.
  Two non-empty levels give \<open>"Alice - Bob"\<close>.
\<close>

theorem dimension_key_dangling:
  "dimension_key ''Alice'' '''' = ''Alice -''
   \<and> dimension_key '''' ''Bob'' = ''- Bob''
   \<and> dimension_key ''Alice'' ''Bob'' = ''Alice - Bob''"
  by code_simp

subsection \<open>The rollup of one dimension\<close>

text \<open>
  C1: in the table of \<open>create_table_data\<close>, let \<open>ym\<close> be a month that has rows and is not
  the month of the most recent date. The output rows labelled with that month (daily rows
  of its days, week rows touching it, its month summary) are exactly one month summary
  when the number of distinct days of the month among the rows is at least the calendar
  length of the month, and none at all otherwise. The summary's cells are the registry
  aggregates over the rows of that month.
\<close>

theorem non_current_month_rollup:
  assumes out: "create_table_data p fr = Some out"
    and member: "(d0, r0) \<in> set (dated_rows p fr)" "year_month d0 = ym"
    and latest: "(dmax, r1) \<in> set (dated_rows p fr)"
      "\<forall>(d, r)\<in>set (dated_rows p fr). date_key d \<le> date_key dmax"
    and other: "ym \<noteq> year_month dmax"
  shows "filter (\<lambda>rr. label_in_month ym (fst rr)) out =
     (let month_rows = rows_where p (\<lambda>d. year_month d = ym) fr
      in if days_in_month (fst ym) (snd ym)
            \<le> int (card (set (map (\<lambda>r. ts_day (the (to_datetime p (Date r)))) month_rows)))
         then [(MonthSummary (fst ym) (snd ym),
                map (\<lambda>col. registry_aggregate col month_rows) (tl (available_columns fr)))]
         else [])"
proof -
  let ?key = "\<lambda>dr. year_month (fst dr)"
  let ?D = "dated_rows p fr"
  let ?S = "sort_desc (\<lambda>dr. date_key (fst dr)) ?D"
  let ?latest = "year_month (fst (hd ?S))"
  let ?cols = "available_columns fr"
  let ?P = "\<lambda>rr. label_in_month ym (fst rr)"
  let ?G = "\<lambda>k. filter (\<lambda>x. ?key x = k) ?S"
  let ?h = "\<lambda>k. filter ?P (month_block ?latest ?cols (k, ?G k))"
  let ?ks = "uniq (map ?key ?S)"
  have lat: "?latest = year_month dmax"
    using latest by (rule latest_is_max)
  have out_eq: "out = concat (map (month_block ?latest ?cols) (groupby_unsorted ?key ?S))
                  @ [total_row ?S ?cols]"
    using create_table_data_Some(2)[OF out] .
  have "filter ?P out = concat (map ?h ?ks)"
    by (subst out_eq) (simp add: groupby_unsorted_concat filter_concat_map total_row_def)
  moreover have "concat (map ?h ?ks) = ?h ym"
  proof (rule concat_map_single)
    show "distinct ?ks" by simp
    show "ym \<in> set ?ks" using member by (force simp: set_sort_desc)
  next
    fix k assume k: "k \<in> set ?ks" "k \<noteq> ym"
    then have ne: "?G k \<noteq> []" by (auto simp: filter_empty_conv)
    have "\<forall>x\<in>set (?G k). ?key x = k" by simp
    then have "\<forall>rr\<in>set (month_block ?latest ?cols (k, ?G k)). \<not> ?P rr"
      using month_block_labels[OF ne, of k ?latest ?cols ym] k(2) by simp
    then show "?h k = []" by (simp add: filter_empty_conv)
  qed
  moreover have "?h ym =
    (if is_month_complete (?G ym) (fst ym) (snd ym)
     then [month_total_row (?G ym) ?cols (fst ym) (snd ym)] else [])"
  proof -
    have ne: "?G ym \<noteq> []" using member by (force simp: filter_empty_conv set_sort_desc)
    have all: "\<forall>x\<in>set (?G ym). ?key x = ym" by simp
    have "\<forall>rr\<in>set (month_block ?latest ?cols (ym, ?G ym)). ?P rr"
      using month_block_labels[OF ne all, of ?latest ?cols ym] by simp
    then have "?h ym = month_block ?latest ?cols (ym, ?G ym)" by simp
    then show ?thesis using month_block_other[OF ne all, of ?latest ?cols] other lat by simp
  qed
  moreover have "is_month_complete (?G ym) (fst ym) (snd ym) \<longleftrightarrow>
      days_in_month (fst ym) (snd ym)
        \<le> int (card (set (map (\<lambda>r. ts_day (the (to_datetime p (Date r))))
                              (rows_where p (\<lambda>d. year_month d = ym) fr))))"
    using days_sorted_filter[of "\<lambda>d. year_month d = ym" "\<lambda>dr. date_key (fst dr)" p fr]
    by (simp add: is_month_complete_def Let_def)
  moreover have "month_total_row (?G ym) ?cols (fst ym) (snd ym) =
      (MonthSummary (fst ym) (snd ym),
       map (\<lambda>col. registry_aggregate col (rows_where p (\<lambda>d. year_month d = ym) fr)) (tl ?cols))"
  proof -
    have "filter (\<lambda>dr. year_month (fst dr) = ym) ?D \<noteq> []"
      using member by (force simp: filter_empty_conv)
    then show ?thesis
      using reduce_column_sorted_filter[where Q = "\<lambda>d. year_month d = ym" and p = p
          and fr = fr and f = "\<lambda>dr. date_key (fst dr)"]
      by (simp add: month_total_row_def)
  qed
  ultimately show ?thesis by (simp add: Let_def)
qed


theorem non_current_month_witness:
  "filter (\<lambda>rr. label_in_month (2023, 2) (fst rr)) (the (create_table_data parse_iso example_months))
     = [(MonthSummary 2023 2, [28, 28])]
   \<and> filter (\<lambda>rr. label_in_month (2023, 1) (fst rr)) (the (create_table_data parse_iso example_months))
     = []"
proof -
  let ?fr = example_months
  let ?D = "dated_rows parse_iso ?fr"
  have "Timestamp 2023 2 1 \<in> fst ` set ?D" "Timestamp 2023 1 31 \<in> fst ` set ?D"
    "Timestamp 2023 3 1 \<in> fst ` set ?D"
    by code_simp+
  then obtain r_feb r_jan r_mar where mem: "(Timestamp 2023 2 1, r_feb) \<in> set ?D"
    "(Timestamp 2023 1 31, r_jan) \<in> set ?D" "(Timestamp 2023 3 1, r_mar) \<in> set ?D"
    by auto
  then have "?D \<noteq> []" by auto
  then have out: "create_table_data parse_iso ?fr = Some (the (create_table_data parse_iso ?fr))"
    using create_table_data_not_None by simp
  have mx: "\<forall>(d, r)\<in>set ?D. date_key d \<le> date_key (Timestamp 2023 3 1)"
    by code_simp
  have feb: "(let month_rows = rows_where parse_iso (\<lambda>d. year_month d = (2023, 2)) ?fr
      in if days_in_month (fst (2023, 2)) (snd (2023, 2))
            \<le> int (card (set (map (\<lambda>r. ts_day (the (to_datetime parse_iso (Date r)))) month_rows)))
         then [(MonthSummary (fst (2023, 2)) (snd (2023, 2)),
                map (\<lambda>col. registry_aggregate col month_rows) (tl (available_columns ?fr)))]
         else []) = [(MonthSummary 2023 2, [28, 28])]"
    by code_simp
  have jan: "(let month_rows = rows_where parse_iso (\<lambda>d. year_month d = (2023, 1)) ?fr
      in if days_in_month (fst (2023, 1)) (snd (2023, 1))
            \<le> int (card (set (map (\<lambda>r. ts_day (the (to_datetime parse_iso (Date r)))) month_rows)))
         then [(MonthSummary (fst (2023, 1)) (snd (2023, 1)),
                map (\<lambda>col. registry_aggregate col month_rows) (tl (available_columns ?fr)))]
         else []) = []"
    by code_simp
  have ym: "year_month (Timestamp 2023 2 1) = (2023, 2)" "year_month (Timestamp 2023 1 31) = (2023, 1)"
    "(2023, 2) \<noteq> year_month (Timestamp 2023 3 1)" "(2023, 1) \<noteq> year_month (Timestamp 2023 3 1)"
    by (simp_all add: year_month_def)
  show ?thesis
    using non_current_month_rollup[OF out mem(1) ym(1) mem(3) mx ym(3)]
      non_current_month_rollup[OF out mem(2) ym(2) mem(3) mx ym(4)]
    unfolding feb jan by simp
qed

text \<open>
  C2 (counterexample): a row whose date does not parse is an input row of the dimension,
  and line 196 drops it before anything is reduced. On \<open>example_gap\<close> the \<open>TOTAL\<close> row is
  \<open>[1, 3]\<close>, while the aggregates over all the input rows are \<open>[6, 9]\<close>.
\<close>

theorem total_row_counterexample:
  "create_table_data parse_iso example_gap
     = Some [(Daily (Timestamp 2024 8 1), [1, 3]), (MonthSummary 2024 8, [1, 3]), (Total, [1, 3])]
   \<and> map (\<lambda>col. registry_aggregate col (rows example_gap)) (tl (available_columns example_gap)) = [6, 9]"
  by code_simp


text \<open>
  C2 (amended): for a frame with at least one validly dated row, \<open>create_table_data\<close>
  returns a table whose last row is the only \<open>TOTAL\<close> row, and each of its cells is the
  registry aggregate of its column over all the validly dated input rows, in whatever
  month they lie (the rows of suppressed months included).
\<close>

theorem total_row_over_dated_rows:
  assumes "\<exists>r\<in>set (rows fr). to_datetime p (Date r) \<noteq> None"
  shows "\<exists>out. create_table_data p fr = Some out
     \<and> out \<noteq> []
     \<and> last out = (Total, map (\<lambda>col. registry_aggregate col (rows_where p (\<lambda>d. True) fr))
                            (tl (available_columns fr)))
     \<and> filter (\<lambda>rr. fst rr = Total) (butlast out) = []"
proof -
  let ?key = "\<lambda>dr. year_month (fst dr)"
  let ?D = "dated_rows p fr"
  let ?S = "sort_desc (\<lambda>dr. date_key (fst dr)) ?D"
  let ?latest = "year_month (fst (hd ?S))"
  let ?cols = "available_columns fr"
  let ?body = "concat (map (month_block ?latest ?cols) (groupby_unsorted ?key ?S))"
  have "rows_where p (\<lambda>d. True) fr \<noteq> []"
    using assms by (auto simp: rows_where_def filter_empty_conv split: option.splits)
  then have ne: "filter (\<lambda>dr. (\<lambda>d. True) (fst dr)) ?D \<noteq> []"
    using map_snd_filter_dated_rows[of "\<lambda>d. True" p fr] by (metis map_is_Nil_conv)
  then have D_ne: "?D \<noteq> []" by simp
  then have out: "create_table_data p fr = Some (?body @ [total_row ?S ?cols])"
    by (simp add: create_table_data_def Let_def sort_desc_Nil_iff)
  have "total_row ?S ?cols =
    (Total, map (\<lambda>col. registry_aggregate col (rows_where p (\<lambda>d. True) fr)) (tl ?cols))"
    using reduce_column_sorted_filter[OF ne, where f = "\<lambda>dr. date_key (fst dr)"]
    by (simp add: total_row_def)
  moreover have "filter (\<lambda>rr. fst rr = Total) ?body = []"
    by (auto simp: filter_empty_conv month_block_def Let_def daily_row_def month_total_row_def)
  ultimately show ?thesis using out by simp
qed

theorem total_row_witness:
  "(\<exists>r\<in>set (rows example_gap). to_datetime parse_iso (Date r) \<noteq> None)
   \<and> (\<exists>out. create_table_data parse_iso example_gap = Some out \<and> out \<noteq> []
        \<and> last out = (Total, [1, 3]) \<and> filter (\<lambda>rr. fst rr = Total) (butlast out) = [])"
proof -
  have h: "\<exists>r\<in>set (rows example_gap). to_datetime parse_iso (Date r) \<noteq> None"
    by code_simp
  have v: "map (\<lambda>col. registry_aggregate col (rows_where parse_iso (\<lambda>d. True) example_gap))
              (tl (available_columns example_gap)) = [1, 3]"
    by code_simp
  show ?thesis
    using h total_row_over_dated_rows[OF h] unfolding v by simp
qed


text \<open>
  C9: every month group of the builder is non-empty and its rows are calendar dates of
  the group's one (year, month). For such a group the number of distinct days is at most
  the calendar length of the month, and the completeness test holds exactly when every
  calendar day of the month occurs in the group.
\<close>

theorem month_complete_iff_every_day:
  "((ym, G) \<in> set (groupby_unsorted (\<lambda>dr. year_month (fst dr))
                    (sort_desc (\<lambda>dr. date_key (fst dr)) (dated_rows p fr)))
      \<longrightarrow> G \<noteq> [] \<and> (\<forall>(d, r)\<in>set G. valid_date d \<and> ts_year d = fst ym \<and> ts_month d = snd ym))
   \<and> ((\<forall>(d, r)\<in>set G. valid_date d \<and> ts_year d = y \<and> ts_month d = m)
      \<longrightarrow> int (card (set (map (\<lambda>(d, r). ts_day d) G))) \<le> days_in_month y m
          \<and> (is_month_complete G y m
               \<longleftrightarrow> (\<forall>k. 1 \<le> k \<and> k \<le> days_in_month y m \<longrightarrow> (\<exists>(d, r)\<in>set G. ts_day d = k))))"
proof (intro conjI impI)
  assume g: "(ym, G) \<in> set (groupby_unsorted (\<lambda>dr. year_month (fst dr))
                    (sort_desc (\<lambda>dr. date_key (fst dr)) (dated_rows p fr)))"
  show "G \<noteq> []" using groupby_unsorted_member(2)[OF g] .
  have G: "G = filter (\<lambda>x. year_month (fst x) = ym) (sort_desc (\<lambda>dr. date_key (fst dr)) (dated_rows p fr))"
    using groupby_unsorted_member(1)[OF g] .
  show "\<forall>(d, r)\<in>set G. valid_date d \<and> ts_year d = fst ym \<and> ts_month d = snd ym"
  proof (clarify, intro conjI)
    fix d r assume "(d, r) \<in> set G"
    then have "(d, r) \<in> set (dated_rows p fr)" "year_month d = ym"
      by (auto simp: G set_sort_desc)
    then show "valid_date d" "ts_year d = fst ym" "ts_month d = snd ym"
      using dated_rows_valid by (auto simp: year_month_def)
  qed
next
  assume a: "\<forall>(d, r)\<in>set G. valid_date d \<and> ts_year d = y \<and> ts_month d = m"
  let ?days = "set (map (\<lambda>(d, r). ts_day d) G)"
  let ?n = "days_in_month y m"
  have sub: "?days \<subseteq> {1..?n}"
    using a by (auto simp: valid_date_def)
  have c: "card {1..?n} = nat ?n" by simp
  have "card ?days \<le> card {1..?n}"
    using sub by (intro card_mono) auto
  then show le: "int (card ?days) \<le> ?n"
    using c days_in_month_nonneg[of y m] by linarith
  have "is_month_complete G y m \<longleftrightarrow> ?n \<le> int (card ?days)"
    by (simp add: is_month_complete_def Let_def)
  also have "\<dots> \<longleftrightarrow> ?days = {1..?n}"
  proof
    assume "?n \<le> int (card ?days)"
    then have "card {1..?n} \<le> card ?days" using c by linarith
    then show "?days = {1..?n}" using sub by (intro card_seteq) auto
  next
    assume "?days = {1..?n}"
    then have "card ?days = nat ?n" using c by simp
    then show "?n \<le> int (card ?days)" using days_in_month_nonneg[of y m] by simp
  qed
  also have "\<dots> \<longleftrightarrow> (\<forall>k. 1 \<le> k \<and> k \<le> ?n \<longrightarrow> (\<exists>(d, r)\<in>set G. ts_day d = k))"
  proof
    assume e: "?days = {1..?n}"
    show "\<forall>k. 1 \<le> k \<and> k \<le> ?n \<longrightarrow> (\<exists>(d, r)\<in>set G. ts_day d = k)"
    proof (intro allI impI)
      fix k assume "1 \<le> k \<and> k \<le> ?n"
      then have "k \<in> ?days" using e by simp
      then show "\<exists>(d, r)\<in>set G. ts_day d = k" by force
    qed
  next
    assume r: "\<forall>k. 1 \<le> k \<and> k \<le> ?n \<longrightarrow> (\<exists>(d, r)\<in>set G. ts_day d = k)"
    have "{1..?n} \<subseteq> ?days"
    proof
      fix k assume "k \<in> {1..?n}"
      then obtain d r' where "(d, r') \<in> set G" "ts_day d = k" using r by fastforce
      then show "k \<in> ?days" by force
    qed
    then show "?days = {1..?n}" using sub by auto
  qed
  finally show "is_month_complete G y m
      \<longleftrightarrow> (\<forall>k. 1 \<le> k \<and> k \<le> ?n \<longrightarrow> (\<exists>(d, r)\<in>set G. ts_day d = k))" .
qed

theorem month_complete_witness:
  "\<exists>G. ((2024, 8), G) \<in> set (groupby_unsorted (\<lambda>dr. year_month (fst dr))
                    (sort_desc (\<lambda>dr. date_key (fst dr)) (dated_rows parse_iso example_gap)))
     \<and> G \<noteq> []
     \<and> int (card (set (map (\<lambda>(d, r). ts_day d) G))) \<le> days_in_month 2024 8
     \<and> (is_month_complete G 2024 8
          \<longleftrightarrow> (\<forall>k. 1 \<le> k \<and> k \<le> days_in_month 2024 8 \<longrightarrow> (\<exists>(d, r)\<in>set G. ts_day d = k)))"
proof -
  let ?gs = "groupby_unsorted (\<lambda>dr. year_month (fst dr))
               (sort_desc (\<lambda>dr. date_key (fst dr)) (dated_rows parse_iso example_gap))"
  have "(2024, 8) \<in> fst ` set ?gs"
    by code_simp
  then obtain G where g: "((2024, 8), G) \<in> set ?gs"
    by auto
  have a: "G \<noteq> [] \<and> (\<forall>(d, r)\<in>set G. valid_date d \<and> ts_year d = 2024 \<and> ts_month d = 8)"
    using g month_complete_iff_every_day[of "(2024, 8)" G parse_iso example_gap] by simp
  then show ?thesis
    using g month_complete_iff_every_day[of "(2024, 8)" G parse_iso example_gap 2024 8] by blast
qed

subsection \<open>The table of a team\<close>

lemma min_date_in:
  assumes "ds \<noteq> []"
  shows "min_date ds \<in> set ds"
proof -
  have f: "fold (\<lambda>d m. if date_key d < date_key m then d else m) xs x \<in> insert x (set xs)" for xs x
    by (induction xs arbitrary: x) auto
  obtain a as where ds: "ds = a # as" using assms by (cases ds) auto
  show ?thesis using f[of as a] by (simp add: min_date_def ds)
qed

lemma filter_map_single:
  "distinct ks \<Longrightarrow> a \<in> set ks \<Longrightarrow> (\<And>k. k \<in> set ks \<Longrightarrow> P (f k) \<longleftrightarrow> k = a) \<Longrightarrow>
   filter P (map f ks) = [f a]"
proof (induction ks)
  case Nil
  then show ?case by simp
next
  case (Cons k ks)
  show ?case
  proof (cases "k = a")
    case True
    then have "a \<notin> set ks" using Cons.prems(1) by simp
    then have "\<And>k'. k' \<in> set ks \<Longrightarrow> \<not> P (f k')" using Cons.prems(3) by auto
    then have "filter P (map f ks) = []" by (simp add: filter_empty_conv)
    moreover have "P (f k)" using Cons.prems(3)[of k] True by simp
    ultimately show ?thesis using True by simp
  next
    case False
    then have "\<not> P (f k)" using Cons.prems(3)[of k] by simp
    moreover have "filter P (map f ks) = [f a]"
      using Cons.IH Cons.prems False by auto
    ultimately show ?thesis by simp
  qed
qed

lemma week_total_row_label:
  assumes "W \<noteq> []" and "\<forall>x\<in>set W. year_week (fst x) = k"
  shows "is_week_of wk (fst (week_total_row W cols)) \<longleftrightarrow> k = wk"
proof -
  have "min_date (map fst W) \<in> set (map fst W)"
    using assms(1) by (intro min_date_in) simp
  then have "year_week (min_date (map fst W)) = k" using assms(2) by auto
  then show ?thesis by (simp add: week_total_row_def)
qed

lemma team_month_block_latest:
  "team_month_block latest cols T (latest, M) =
     map (daily_row cols) M
     @ map (\<lambda>wk. week_total_row (filter (\<lambda>dr. year_week (fst dr) = wk) T) cols)
           (uniq (map (\<lambda>dr. year_week (fst dr)) M))
     @ [month_total_row M cols (ts_year (fst (hd M))) (ts_month (fst (hd M)))]"
  unfolding team_month_block_def Let_def by simp

lemma team_month_block_other:
  assumes "k \<noteq> latest"
  shows "\<forall>rr\<in>set (team_month_block latest cols T (k, G)). \<not> is_week (fst rr) \<and> \<not> is_daily (fst rr)"
proof -
  have "team_month_block latest cols T (k, G) =
    (if is_month_complete G (ts_year (fst (hd G))) (ts_month (fst (hd G)))
     then [month_total_row G cols (ts_year (fst (hd G))) (ts_month (fst (hd G)))] else [])"
    using assms unfolding team_month_block_def Let_def by simp
  then show ?thesis by (simp add: month_total_row_def)
qed

lemma create_supervisor_report_Some:
  assumes "create_supervisor_report p fr = Inr (Some out)"
  shows "team_rows p fr \<noteq> []"
    and "out = concat (map (team_month_block (year_month (fst (hd (team_rows p fr)))) display_columns
                              (team_rows p fr))
                 (groupby_unsorted (\<lambda>dr. year_month (fst dr)) (team_rows p fr)))
               @ [total_row (team_rows p fr) display_columns]"
proof -
  have D: "dated_rows p fr \<noteq> []"
    using assms by (auto simp: create_supervisor_report_def Let_def split: if_splits)
  have eq: "create_supervisor_report p fr =
    Inr (Some (if team_rows p fr \<noteq> [] then
       concat (map (team_month_block (year_month (fst (hd (team_rows p fr)))) display_columns
                              (team_rows p fr))
                 (groupby_unsorted (\<lambda>dr. year_month (fst dr)) (team_rows p fr)))
               @ [total_row (team_rows p fr) display_columns]
       else concat (map (team_month_block (year_month (fst (hd (team_rows p fr)))) display_columns
                              (team_rows p fr))
                 (groupby_unsorted (\<lambda>dr. year_month (fst dr)) (team_rows p fr)))))"
  proof (cases "filter (\<lambda>col. col \<notin> set (columns fr)) team_metrics")
    case Nil
    then show ?thesis
      using D unfolding create_supervisor_report_def team_rows_def Let_def by simp
  next
    case (Cons c cs)
    then have "create_supervisor_report p fr = Inl (KeyError c)"
      using D unfolding create_supervisor_report_def Let_def by simp
    then show ?thesis using assms by simp
  qed
  have "sort_desc (\<lambda>dr. date_key (fst dr)) (dated_rows p fr) \<noteq> []"
    using D by (simp add: sort_desc_Nil_iff)
  then have "groupby_sorted (\<lambda>(d, r). Date r) (sort_desc (\<lambda>dr. date_key (fst dr)) (dated_rows p fr)) \<noteq> []"
    by (auto simp: groupby_sorted_def simp flip: set_empty)
  then show T: "team_rows p fr \<noteq> []"
    by (simp add: team_rows_def daily_totals_def sort_desc_Nil_iff)
  show "out = concat (map (team_month_block (year_month (fst (hd (team_rows p fr)))) display_columns
                              (team_rows p fr))
                 (groupby_unsorted (\<lambda>dr. year_month (fst dr)) (team_rows p fr)))
               @ [total_row (team_rows p fr) display_columns]"
    using eq assms T by simp
qed

lemma team_rows_sorted: "\<exists>D. team_rows p fr = sort_desc (\<lambda>dr. date_key (fst dr)) D"
  by (auto simp: team_rows_def daily_totals_def)

lemma team_latest_is_max:
  assumes "(dmax, r1) \<in> set (team_rows p fr)"
    and "\<forall>(d, r)\<in>set (team_rows p fr). date_key d \<le> date_key dmax"
  shows "year_month (fst (hd (team_rows p fr))) = year_month dmax"
proof -
  obtain D where D: "team_rows p fr = sort_desc (\<lambda>dr. date_key (fst dr)) D"
    using team_rows_sorted by blast
  have "(dmax, r1) \<in> set D" "\<forall>(d, r)\<in>set D. date_key d \<le> date_key dmax"
    using assms by (simp_all add: D set_sort_desc)
  then show ?thesis unfolding D by (rule latest_is_max)
qed

lemma tl_display_columns: "tl display_columns = team_metrics"
  by (simp add: team_metrics_def)


lemma create_supervisor_report_ok:
  assumes "dated_rows p fr \<noteq> []" and "set team_metrics \<subseteq> set (columns fr)"
  shows "\<exists>out. create_supervisor_report p fr = Inr (Some out)"
proof -
  have "filter (\<lambda>col. col \<notin> set (columns fr)) team_metrics = []"
    using assms(2) by (auto simp: filter_empty_conv)
  then show ?thesis
    using assms(1) unfolding create_supervisor_report_def Let_def by simp
qed



lemma team_frame_columns: "set team_metrics \<subseteq> set (columns (team_frame recs))"
  by (simp add: team_frame_def team_metrics_def)


text \<open>
  C3: in the table of \<open>create_supervisor_report\<close>, for a day \<open>d0\<close> of the current month
  (the month of the most recent date), the output has exactly one week row of the ISO week
  of \<open>d0\<close>; it is labelled with the first and last date of the week's rows and each of
  its cells is the registry aggregate of its column over all the rows of that ISO week in
  the whole date range of the team's daily table, whichever month they lie in.
\<close>

theorem week_summary_over_full_range:
  assumes out: "create_supervisor_report p fr = Inr (Some out)"
    and member: "(d0, r0) \<in> set (team_rows p fr)"
    and latest: "(dmax, r1) \<in> set (team_rows p fr)"
      "\<forall>(d, r)\<in>set (team_rows p fr). date_key d \<le> date_key dmax"
    and current: "year_month d0 = year_month dmax"
  shows "filter (\<lambda>rr. is_week_of (year_week d0) (fst rr)) out =
     (let week_data = filter (\<lambda>dr. year_week (fst dr) = year_week d0) (team_rows p fr)
      in [(WeekSummary (min_date (map fst week_data)) (max_date (map fst week_data)),
           map (\<lambda>col. registry_aggregate col (map snd week_data)) team_metrics)])"
proof -
  let ?T = "team_rows p fr"
  let ?key = "\<lambda>dr. year_month (fst dr)"
  let ?yw = "\<lambda>dr. year_week (fst dr)"
  let ?latest = "year_month (fst (hd ?T))"
  let ?cols = display_columns
  let ?wk0 = "year_week d0"
  let ?P = "\<lambda>rr. is_week_of ?wk0 (fst rr)"
  let ?G = "\<lambda>k. filter (\<lambda>x. ?key x = k) ?T"
  let ?h = "\<lambda>k. filter ?P (team_month_block ?latest ?cols ?T (k, ?G k))"
  let ?ks = "uniq (map ?key ?T)"
  let ?M = "?G ?latest"
  let ?W = "\<lambda>wk. filter (\<lambda>dr. ?yw dr = wk) ?T"
  let ?row = "\<lambda>wk. week_total_row (?W wk) ?cols"
  have lat: "?latest = year_month dmax"
    using latest by (rule team_latest_is_max)
  have out_eq: "out = concat (map (team_month_block ?latest ?cols ?T) (groupby_unsorted ?key ?T))
                  @ [total_row ?T ?cols]"
    using create_supervisor_report_Some(2)[OF out] .
  have "filter ?P out = concat (map ?h ?ks)"
    by (subst out_eq) (simp add: groupby_unsorted_concat filter_concat_map total_row_def)
  moreover have "concat (map ?h ?ks) = ?h ?latest"
  proof (rule concat_map_single)
    show "distinct ?ks" by simp
    show "?latest \<in> set ?ks" using latest(1) lat by force
  next
    fix k assume k: "k \<in> set ?ks" "k \<noteq> ?latest"
    have "\<forall>rr\<in>set (team_month_block ?latest ?cols ?T (k, ?G k)). \<not> is_week (fst rr)"
      using team_month_block_other[OF k(2)] by blast
    moreover have "is_week l" if "is_week_of ?wk0 l" for l
      using that by (cases l) auto
    ultimately show "?h k = []" by (auto simp: filter_empty_conv)
  qed
  moreover have "?h ?latest = [?row ?wk0]"
  proof -
    have inM: "(d0, r0) \<in> set ?M" using member current lat by simp
    have "filter ?P (map ?row (uniq (map ?yw ?M))) = [?row ?wk0]"
    proof (rule filter_map_single)
      show "distinct (uniq (map ?yw ?M))" by simp
      show "?wk0 \<in> set (uniq (map ?yw ?M))" using inM by force
    next
      fix k assume "k \<in> set (uniq (map ?yw ?M))"
      then have ne: "?W k \<noteq> []" by (auto simp: filter_empty_conv)
      have "\<forall>x\<in>set (?W k). year_week (fst x) = k" by simp
      then show "?P (?row k) \<longleftrightarrow> k = ?wk0"
        using week_total_row_label[OF ne, of k ?wk0 ?cols] by simp
    qed
    then show ?thesis
      by (simp add: team_month_block_latest daily_row_def month_total_row_def)
  qed
  moreover have "?row ?wk0 =
      (WeekSummary (min_date (map fst (?W ?wk0))) (max_date (map fst (?W ?wk0))),
       map (\<lambda>col. registry_aggregate col (map snd (?W ?wk0))) team_metrics)"
  proof -
    have "?W ?wk0 \<noteq> []" using member by (force simp: filter_empty_conv)
    then show ?thesis
      using reduce_column_registry by (simp add: week_total_row_def tl_display_columns)
  qed
  ultimately show ?thesis by (simp add: Let_def)
qed

text \<open>
  On \<open>example_straddle\<close> the current month is August 2024 and its only daily row is
  2024-08-01; the week row spans 07/31 to 08/01 and its cells (7 registrations, gauge 20)
  include the day of July, which has no daily row.
\<close>

theorem week_summary_witness:
  "\<exists>out. create_supervisor_report parse_iso example_straddle = Inr (Some out)
     \<and> filter (\<lambda>rr. is_week_of (2024, 31) (fst rr)) out
         = [(WeekSummary (Timestamp 2024 7 31) (Timestamp 2024 8 1),
             [7, 0, 0, 0, 0, 0, 20, 0, 0, 0, 0, 0, 0, 0, 0, 0, 0, 0, 0])]
     \<and> filter (\<lambda>rr. is_daily (fst rr)) out
         = [(Daily (Timestamp 2024 8 1), [5, 0, 0, 0, 0, 0, 14, 0, 0, 0, 0, 0, 0, 0, 0, 0, 0, 0, 0])]"
proof -
  let ?fr = example_straddle
  let ?T = "team_rows parse_iso ?fr"
  have "dated_rows parse_iso ?fr \<noteq> []"
    by code_simp
  then obtain out where out: "create_supervisor_report parse_iso ?fr = Inr (Some out)"
    using create_supervisor_report_ok team_frame_columns unfolding example_straddle_def by blast
  have "Timestamp 2024 8 1 \<in> fst ` set ?T"
    by code_simp
  then obtain r0 where mem: "(Timestamp 2024 8 1, r0) \<in> set ?T"
    by auto
  have mx: "\<forall>(d, r)\<in>set ?T. date_key d \<le> date_key (Timestamp 2024 8 1)"
    by code_simp
  have wk: "year_week (Timestamp 2024 8 1) = (2024, 31)"
    by code_simp
  have v: "(let week_data = filter (\<lambda>dr. year_week (fst dr) = (2024, 31)) ?T
      in [(WeekSummary (min_date (map fst week_data)) (max_date (map fst week_data)),
           map (\<lambda>col. registry_aggregate col (map snd week_data)) team_metrics)])
     = [(WeekSummary (Timestamp 2024 7 31) (Timestamp 2024 8 1),
             [7, 0, 0, 0, 0, 0, 20, 0, 0, 0, 0, 0, 0, 0, 0, 0, 0, 0, 0])]"
    by code_simp
  have d: "filter (\<lambda>rr. is_daily (fst rr)) (the (projr (create_supervisor_report parse_iso ?fr)))
         = [(Daily (Timestamp 2024 8 1), [5, 0, 0, 0, 0, 0, 14, 0, 0, 0, 0, 0, 0, 0, 0, 0, 0, 0, 0])]"
    by code_simp
  have "filter (\<lambda>rr. is_week_of (2024, 31) (fst rr)) out
         = [(WeekSummary (Timestamp 2024 7 31) (Timestamp 2024 8 1),
             [7, 0, 0, 0, 0, 0, 20, 0, 0, 0, 0, 0, 0, 0, 0, 0, 0, 0, 0])]"
    using week_summary_over_full_range[OF out mem mem mx refl] unfolding wk v .
  then show ?thesis using out d by simp
qed




subsection \<open>The comparator\<close>























subsection \<open>The aggregator\<close>









subsection \<open>What the stages do to their input\<close>






end
